theory Spec2Isabelle
  imports Main "HOL-Library.Word"
begin

section \<open>JavaScript strings and the built-ins the filter calls\<close>

text \<open>
  A JavaScript string is a sequence of UTF-16 code units. Every character the filter
  looks at (the separators, the slash, white space) lies in the Basic Multilingual
  Plane, so one code unit is one character there.
\<close>

type_synonym jschar = "16 word"
type_synonym jsstring = "jschar list"

definition ascii :: "string \<Rightarrow> jsstring" where
  "ascii s = map of_char s"

text \<open>
  \<^verbatim>\<open>String.prototype.trim\<close> strips WhiteSpace and LineTerminator code points
  (ECMAScript: TAB, VT, FF, SP, NBSP, ZWNBSP, the Zs category, LF, CR, LS, PS)
  from both ends.
\<close>

definition isWhiteSpace :: "jschar \<Rightarrow> bool" where
  "isWhiteSpace c =
     (c = 0x9 \<or> c = 0xA \<or> c = 0xB \<or> c = 0xC \<or> c = 0xD \<or> c = 0x20 \<or> c = 0xA0
      \<or> c = 0x1680 \<or> (0x2000 \<le> c \<and> c \<le> 0x200A) \<or> c = 0x2028 \<or> c = 0x2029
      \<or> c = 0x202F \<or> c = 0x205F \<or> c = 0x3000 \<or> c = 0xFEFF)"

definition trim :: "jsstring \<Rightarrow> jsstring" where
  "trim s = rev (dropWhile isWhiteSpace (rev (dropWhile isWhiteSpace s)))"

text \<open>
  \<^verbatim>\<open>s.split(sep)\<close> for a separator that matches exactly one character: the pieces
  between the separators, in order; the empty string gives one empty piece.
\<close>

fun split_js :: "(jschar \<Rightarrow> bool) \<Rightarrow> jsstring \<Rightarrow> jsstring list" where
  "split_js sep [] = [[]]"
| "split_js sep (c # cs) =
     (if sep c then [] # split_js sep cs
      else (case split_js sep cs of
              [] \<Rightarrow> [[c]]
            | p # ps \<Rightarrow> (c # p) # ps))"


text \<open>\<^verbatim>\<open>s.startsWith(t)\<close> and \<^verbatim>\<open>s.includes(t)\<close>.\<close>

fun startsWith :: "jsstring \<Rightarrow> jsstring \<Rightarrow> bool" where
  "startsWith s [] = True"
| "startsWith [] (c # t) = False"
| "startsWith (d # s) (c # t) = (d = c \<and> startsWith s t)"

fun includes_js :: "jsstring \<Rightarrow> jsstring \<Rightarrow> bool" where
  "includes_js [] t = (t = [])"
| "includes_js (d # s) t = (startsWith (d # s) t \<or> includes_js s t)"

definition endsWith :: "jsstring \<Rightarrow> jsstring \<Rightarrow> bool" where
  "endsWith s t = startsWith (rev s) (rev t)"

text \<open>\<^verbatim>\<open>s.slice(1, -1)\<close>: without the first and the last code unit.\<close>

definition slice_1_m1 :: "jsstring \<Rightarrow> jsstring" where
  "slice_1_m1 s = butlast (tl s)"

section \<open>The host environment\<close>

text \<open>
  What the script takes from its host and from OpenCC, as parameters:
  \<^item> \<open>toLowerCase\<close>: \<^verbatim>\<open>String.prototype.toLowerCase\<close>;
  \<^item> \<open>RegExp_i p\<close>: \<^verbatim>\<open>new RegExp(p, 'i')\<close>, \<open>None\<close> when the constructor throws a
    SyntaxError, otherwise the predicate \<^verbatim>\<open>regex.test\<close> of the compiled pattern;
  \<^item> \<open>cn2twp\<close>, \<open>tw2cn\<close>: what a converter built by
    \<^verbatim>\<open>OpenCC.Converter({ from: 'cn', to: 'twp' })\<close>, respectively
    \<^verbatim>\<open>OpenCC.Converter({ from: 'tw', to: 'cn' })\<close>, returns on a string, \<open>None\<close> when
    the call throws.
\<close>

record env =
  toLowerCase :: "jsstring \<Rightarrow> jsstring"
  RegExp_i :: "jsstring \<Rightarrow> (jsstring \<Rightarrow> bool) option"
  cn2twp :: "jsstring \<Rightarrow> jsstring option"
  tw2cn :: "jsstring \<Rightarrow> jsstring option"

datatype error = TypeError | ConversionFailure

section \<open>The script's state\<close>

text \<open>
  The module-level cache \<^verbatim>\<open>converters\<close> holds \<^verbatim>\<open>null\<close> or a converter instance in
  each field. An instance is identified by the number of the
  \<^verbatim>\<open>OpenCC.Converter\<close> call that built it.
\<close>

record converters =
  toTraditional :: "nat option"
  toSimplified :: "nat option"

text \<open>
  A row of the listing: its identity, the text of its \<^verbatim>\<open>.title\<close> cell and
  \<^verbatim>\<open>row.style.display\<close>. Every row of the listing has a \<^verbatim>\<open>.title\<close> cell, so
  \<^verbatim>\<open>row.querySelector('.title')\<close> is an element and \<open>title\<close> is its
  \<^verbatim>\<open>textContent\<close>.
\<close>

record row =
  rid :: nat
  title :: jsstring
  display :: string

text \<open>
  The state a filtering pass reads and writes: the cache, the number of
  \<^verbatim>\<open>OpenCC.Converter\<close> calls made so far, and the children of the table's
  \<^verbatim>\<open>tbody\<close> in document order. The table has one \<^verbatim>\<open>tbody\<close> and its children
  are the rows, so \<^verbatim>\<open>table.querySelectorAll('tbody tr')\<close> and \<^verbatim>\<open>tbody.children\<close>
  are the same list.
\<close>

record page =
  cache :: converters
  constructed :: nat
  tbody :: "row list"

text \<open>
  When the script is loaded both fields of the cache are \<^verbatim>\<open>null\<close> and no converter
  has been built.
\<close>

definition initial_cache :: converters where
  "initial_cache = \<lparr>toTraditional = None, toSimplified = None\<rparr>"

definition initial_page :: "row list \<Rightarrow> page" where
  "initial_page rows = \<lparr>cache = initial_cache, constructed = 0, tbody = rows\<rparr>"

section \<open>initConverters\<close>

text \<open>
  OpenCC is loaded before the script runs (\<^verbatim>\<open>@require\<close>), and each of the two
  \<^verbatim>\<open>OpenCC.Converter\<close> calls returns a new instance.
\<close>

definition initConverters :: "page \<Rightarrow> page" where
  "initConverters p =
     (if toTraditional (cache p) = None \<or> toSimplified (cache p) = None
      then p\<lparr>cache := \<lparr>toTraditional = Some (constructed p),
                        toSimplified = Some (Suc (constructed p))\<rparr>,
             constructed := constructed p + 2\<rparr>
      else p)"

section \<open>filterTitles\<close>

text \<open>
  Calling a cached converter: a \<^verbatim>\<open>null\<close> field is not callable (TypeError); an
  instance behaves as the environment says.
\<close>

definition callConverter ::
  "(jsstring \<Rightarrow> jsstring option) \<Rightarrow> nat option \<Rightarrow> jsstring \<Rightarrow> error + jsstring" where
  "callConverter f inst s =
     (case inst of
        None \<Rightarrow> Inl TypeError
      | Some i \<Rightarrow> (case f s of None \<Rightarrow> Inl ConversionFailure | Some t \<Rightarrow> Inr t))"

text \<open>
  The three-element array the source builds for a title and for each keyword:
  the string itself, its traditional and its simplified conversion, each lowercased.
\<close>

definition variants :: "env \<Rightarrow> converters \<Rightarrow> jsstring \<Rightarrow> error + jsstring list" where
  "variants e cv s =
     (case callConverter (cn2twp e) (toTraditional cv) s of
        Inl err \<Rightarrow> Inl err
      | Inr t \<Rightarrow>
          (case callConverter (tw2cn e) (toSimplified cv) s of
             Inl err \<Rightarrow> Inl err
           | Inr u \<Rightarrow> Inr [toLowerCase e s, toLowerCase e t, toLowerCase e u]))"

text \<open>\<^verbatim>\<open>keywords.split(/[;U+FF1B]/).map(group => group.trim()).filter(Boolean)\<close>\<close>

definition isAndSeparator :: "jschar \<Rightarrow> bool" where
  "isAndSeparator c = (c = 0x3B \<or> c = 0xFF1B)"

definition filterGroups :: "jsstring \<Rightarrow> jsstring list" where
  "filterGroups keywords = filter (\<lambda>g. g \<noteq> []) (map trim (split_js isAndSeparator keywords))"

text \<open>\<^verbatim>\<open>group.split('|').map(term => term.trim()).filter(Boolean)\<close>\<close>

definition terms :: "jsstring \<Rightarrow> jsstring list" where
  "terms grp = filter (\<lambda>t. t \<noteq> []) (map trim (split_js (\<lambda>c. c = 0x7C) grp))"

text \<open>\<^verbatim>\<open>terms.flatMap(term => [\<dots>])\<close>\<close>

fun termVariants :: "env \<Rightarrow> converters \<Rightarrow> jsstring list \<Rightarrow> error + jsstring list" where
  "termVariants e cv [] = Inr []"
| "termVariants e cv (term # ts) =
     (case variants e cv term of
        Inl err \<Rightarrow> Inl err
      | Inr vs \<Rightarrow>
          (case termVariants e cv ts of
             Inl err \<Rightarrow> Inl err
           | Inr ws \<Rightarrow> Inr (vs @ ws)))"

text \<open>
  \<^verbatim>\<open>group.startsWith('/') && group.endsWith('/') && group.length > 2\<close>
\<close>

definition isRegexGroup :: "jsstring \<Rightarrow> bool" where
  "isRegexGroup grp = (startsWith grp [0x2F] \<and> endsWith grp [0x2F] \<and> length grp > 2)"

text \<open>
  The callback of \<^verbatim>\<open>filterGroups.every\<close>, for one group. The \<^verbatim>\<open>try\<close> block can
  only be left by the SyntaxError of the constructor; the \<^verbatim>\<open>console.warn\<close> of the
  \<^verbatim>\<open>catch\<close> branch writes to the console, which is not part of the state here.
\<close>

definition matchesGroup ::
  "env \<Rightarrow> converters \<Rightarrow> jsstring list \<Rightarrow> jsstring \<Rightarrow> error + bool" where
  "matchesGroup e cv titleVariants grp =
     (if isRegexGroup grp then
        (case RegExp_i e (slice_1_m1 grp) of
           Some regex \<Rightarrow> Inr (list_ex regex titleVariants)
         | None \<Rightarrow>
             Inr (list_ex (\<lambda>variant. includes_js variant (toLowerCase e grp)) titleVariants))
      else
        (case termVariants e cv (terms grp) of
           Inl err \<Rightarrow> Inl err
         | Inr tvs \<Rightarrow>
             Inr (list_ex (\<lambda>titleVariant.
                    list_ex (\<lambda>termVariant. includes_js titleVariant termVariant) tvs)
                  titleVariants)))"

text \<open>
  \<^verbatim>\<open>Array.prototype.every\<close> with a callback that may throw: it stops at the first
  element whose callback returns false, and an exception leaves it at once.
\<close>

fun every :: "('a \<Rightarrow> error + bool) \<Rightarrow> 'a list \<Rightarrow> error + bool" where
  "every f [] = Inr True"
| "every f (x # xs) =
     (case f x of
        Inl err \<Rightarrow> Inl err
      | Inr b \<Rightarrow> (if b then every f xs else Inr False))"

text \<open>
  The value of \<^verbatim>\<open>matchesAllGroups\<close> for a row with the given title text: the
  title's variants, then \<^verbatim>\<open>filterGroups.every\<close>.
\<close>

definition matchesAllGroups ::
  "env \<Rightarrow> converters \<Rightarrow> jsstring list \<Rightarrow> jsstring \<Rightarrow> error + bool" where
  "matchesAllGroups e cv groups ttl =
     (case variants e cv ttl of
        Inl err \<Rightarrow> Inl err
      | Inr titleVariants \<Rightarrow> every (matchesGroup e cv titleVariants) groups)"

text \<open>
  The body of the second \<^verbatim>\<open>rows.forEach\<close>, up to the assignment of
  \<^verbatim>\<open>row.style.display\<close>.
\<close>

definition processRow :: "env \<Rightarrow> converters \<Rightarrow> jsstring list \<Rightarrow> row \<Rightarrow> error + row" where
  "processRow e cv groups r =
     (case matchesAllGroups e cv groups (title r) of
        Inl err \<Rightarrow> Inl err
      | Inr b \<Rightarrow> Inr (r\<lparr>display := (if b then '''' else ''none'')\<rparr>))"

text \<open>
  The second \<^verbatim>\<open>rows.forEach\<close>: each processed row is appended to the document
  fragment; an exception leaves the loop.
\<close>

fun processRows ::
  "env \<Rightarrow> converters \<Rightarrow> jsstring list \<Rightarrow> row list \<Rightarrow> row list \<Rightarrow> error + row list" where
  "processRows e cv groups fragment [] = Inr fragment"
| "processRows e cv groups fragment (r # rows) =
     (case processRow e cv groups r of
        Inl err \<Rightarrow> Inl err
      | Inr r' \<Rightarrow> processRows e cv groups (fragment @ [r']) rows)"

text \<open>
  \<^verbatim>\<open>filterTitles(keywords, table)\<close>. The result is \<open>Inr ()\<close> when the call returns and
  \<open>Inl err\<close> when an exception leaves it; the page is the state at that moment.
\<close>

definition filterTitles :: "env \<Rightarrow> jsstring \<Rightarrow> page \<Rightarrow> (error + unit) \<times> page" where
  "filterTitles e keywords p =
     (if keywords = [] \<or> trim keywords = [] then
        (Inr (), p\<lparr>tbody := map (\<lambda>r. r\<lparr>display := ''''\<rparr>) (tbody p)\<rparr>)
      else
        (let p1 = initConverters p;
             groups = filterGroups keywords;
             rows = tbody p1;
             p2 = p1\<lparr>tbody := []\<rparr>
         in case processRows e (cache p2) groups [] rows of
              Inl err \<Rightarrow> (Inl err, p2)
            | Inr fragment \<Rightarrow> (Inr (), p2\<lparr>tbody := tbody p2 @ fragment\<rparr>)))"

text \<open>
  The input listener calls \<^verbatim>\<open>filterTitles(value, table)\<close> once for every debounced
  edit; a sequence of edits is a sequence of passes over the same page, each starting
  from the state the previous one left (also when that one threw).
\<close>

fun passes :: "env \<Rightarrow> jsstring list \<Rightarrow> page \<Rightarrow> page" where
  "passes e [] p = p"
| "passes e (keywords # rest) p = passes e rest (snd (filterTitles e keywords p))"

text \<open>Which rows of the page the script's inline style leaves visible, in document order.\<close>

definition shown :: "page \<Rightarrow> bool list" where
  "shown p = map (\<lambda>r. display r = '''') (tbody p)"

text \<open>Both fields of the cache hold an instance.\<close>

definition ready :: "converters \<Rightarrow> bool" where
  "ready cv = (toTraditional cv \<noteq> None \<and> toSimplified cv \<noteq> None)"

section \<open>A small environment for concrete runs\<close>

text \<open>
  A stand-in for the host, for evaluating the definitions on concrete inputs:
  lowercasing of the ASCII letters; converters that map the simplified characters
  U+4F53 and U+7B80 to the traditional U+9AD4 and U+7C21, respectively back, and leave
  every other code unit alone;
  a regular-expression constructor that accepts a pattern of ASCII letters and digits
  (searched for as it is, ignoring case) and rejects every other pattern, as the host
  rejects the unterminated class \<^verbatim>\<open>[abc\<close>.
\<close>

definition demo_toLowerCase :: "jsstring \<Rightarrow> jsstring" where
  "demo_toLowerCase s = map (\<lambda>c. if 0x41 \<le> c \<and> c \<le> 0x5A then c + 0x20 else c) s"

definition demo_cn2twp :: "jsstring \<Rightarrow> jsstring" where
  "demo_cn2twp s =
     map (\<lambda>c. if c = 0x4F53 then 0x9AD4 else if c = 0x7B80 then 0x7C21 else c) s"

definition demo_tw2cn :: "jsstring \<Rightarrow> jsstring" where
  "demo_tw2cn s =
     map (\<lambda>c. if c = 0x9AD4 then 0x4F53 else if c = 0x7C21 then 0x7B80 else c) s"

definition isAlnum :: "jschar \<Rightarrow> bool" where
  "isAlnum c = ((0x30 \<le> c \<and> c \<le> 0x39) \<or> (0x41 \<le> c \<and> c \<le> 0x5A) \<or> (0x61 \<le> c \<and> c \<le> 0x7A))"

definition demo_RegExp_i :: "jsstring \<Rightarrow> (jsstring \<Rightarrow> bool) option" where
  "demo_RegExp_i p =
     (if list_all isAlnum p
      then Some (\<lambda>s. includes_js (demo_toLowerCase s) (demo_toLowerCase p))
      else None)"

definition demo_env :: env where
  "demo_env = \<lparr>toLowerCase = demo_toLowerCase, RegExp_i = demo_RegExp_i,
                cn2twp = (\<lambda>s. Some (demo_cn2twp s)), tw2cn = (\<lambda>s. Some (demo_tw2cn s))\<rparr>"

text \<open>
  The same host with a traditional-direction converter that throws on every string
  holding U+7C21.
\<close>

definition failing_env :: env where
  "failing_env =
     demo_env\<lparr>cn2twp := (\<lambda>s. if 0x7C21 \<in> set s then None else Some (demo_cn2twp s))\<rparr>"

definition mk_row :: "nat \<Rightarrow> jsstring \<Rightarrow> row" where
  "mk_row i t = \<lparr>rid = i, title = t, display = ''''\<rparr>"

text \<open>
  A listing of four rows on a page that has not run a pass yet. The first and the last
  title start with U+7B80 U+4F53, the third with U+7C21 U+9AD4.
\<close>

definition demo_page :: page where
  "demo_page = initial_page
     [mk_row 0 ([0x7B80, 0x4F53] @ ascii '' HEVC 01''),
      mk_row 1 (ascii ''x265 02''),
      mk_row 2 ([0x7C21, 0x9AD4] @ ascii '' X265 03''),
      mk_row 3 ([0x7B80, 0x4F53] @ ascii '' AVC'')]"

section \<open>Facts about the built-ins\<close>

lemma startsWith_iff: "startsWith s t \<longleftrightarrow> (\<exists>q. s = t @ q)"
  by (induction s t rule: startsWith.induct) auto

lemma includes_js_iff: "includes_js s t \<longleftrightarrow> (\<exists>p q. s = p @ t @ q)"
proof (induction s)
  case Nil
  then show ?case by simp
next
  case (Cons d s)
  show ?case
  proof
    assume "includes_js (d # s) t"
    then consider "startsWith (d # s) t" | "includes_js s t" by auto
    then show "\<exists>p q. d # s = p @ t @ q"
    proof cases
      case 1
      then obtain q where "d # s = t @ q" by (auto simp: startsWith_iff)
      then have "d # s = [] @ t @ q" by simp
      then show ?thesis by blast
    next
      case 2
      then obtain p q where "s = p @ t @ q" using Cons.IH by blast
      then have "d # s = (d # p) @ t @ q" by simp
      then show ?thesis by blast
    qed
  next
    assume "\<exists>p q. d # s = p @ t @ q"
    then obtain p q where pq: "d # s = p @ t @ q" by blast
    show "includes_js (d # s) t"
    proof (cases p)
      case Nil
      with pq have "startsWith (d # s) t" by (auto simp: startsWith_iff)
      then show ?thesis by simp
    next
      case (Cons a p')
      with pq have "s = p' @ t @ q" by simp
      then have "includes_js s t" using Cons.IH by blast
      then show ?thesis by simp
    qed
  qed
qed

lemma every_pure:
  "(\<And>x. x \<in> set xs \<Longrightarrow> f x = Inr (P x)) \<Longrightarrow> every f xs = Inr (\<forall>x\<in>set xs. P x)"
  by (induction xs) auto

lemma split_js_nonempty: "split_js sep s \<noteq> []"
  by (induction s) (auto split: list.splits)

lemma split_js_append:
  "sep c \<Longrightarrow> split_js sep (a @ c # b) = split_js sep a @ split_js sep b"
  by (induction a) (auto split: list.splits simp: split_js_nonempty)

lemma filterGroups_append:
  "isAndSeparator c \<Longrightarrow> filterGroups (a @ c # b) = filterGroups a @ filterGroups b"
  by (simp add: filterGroups_def split_js_append)

lemma trim_empty_iff: "trim s = [] \<longleftrightarrow> (\<forall>c\<in>set s. isWhiteSpace c)"
proof -
  have "trim s = [] \<longleftrightarrow> dropWhile isWhiteSpace (rev (dropWhile isWhiteSpace s)) = []"
    by (simp add: trim_def)
  also have "\<dots> \<longleftrightarrow> (\<forall>c\<in>set (dropWhile isWhiteSpace s). isWhiteSpace c)"
    by (simp add: dropWhile_eq_Nil_conv)
  also have "\<dots> \<longleftrightarrow> (\<forall>c\<in>set s. isWhiteSpace c)"
  proof
    assume h: "\<forall>c\<in>set (dropWhile isWhiteSpace s). isWhiteSpace c"
    have "dropWhile isWhiteSpace s = []"
    proof (rule ccontr)
      assume "dropWhile isWhiteSpace s \<noteq> []"
      then have "\<not> isWhiteSpace (hd (dropWhile isWhiteSpace s))" "hd (dropWhile isWhiteSpace s) \<in> set (dropWhile isWhiteSpace s)"
        by (auto simp: hd_dropWhile)
      with h show False by blast
    qed
    then show "\<forall>c\<in>set s. isWhiteSpace c" by (simp add: dropWhile_eq_Nil_conv)
  next
    assume "\<forall>c\<in>set s. isWhiteSpace c"
    then show "\<forall>c\<in>set (dropWhile isWhiteSpace s). isWhiteSpace c"
      by (meson set_dropWhileD)
  qed
  finally show ?thesis .
qed

lemma split_js_pieces:
  "(\<forall>p\<in>set (split_js sep s). \<forall>c\<in>set p. Q c) \<longleftrightarrow> (\<forall>c\<in>set s. sep c \<or> Q c)"
  by (induction s) (auto split: list.splits simp: split_js_nonempty)

lemma filterGroups_empty_iff:
  "filterGroups keywords = [] \<longleftrightarrow> (\<forall>c\<in>set keywords. isWhiteSpace c \<or> isAndSeparator c)"
proof -
  have "filterGroups keywords = [] \<longleftrightarrow> (\<forall>p\<in>set (split_js isAndSeparator keywords). trim p = [])"
    by (auto simp: filterGroups_def filter_empty_conv)
  also have "\<dots> \<longleftrightarrow> (\<forall>p\<in>set (split_js isAndSeparator keywords). \<forall>c\<in>set p. isWhiteSpace c)"
    by (simp add: trim_empty_iff)
  also have "\<dots> \<longleftrightarrow> (\<forall>c\<in>set keywords. isAndSeparator c \<or> isWhiteSpace c)"
    by (rule split_js_pieces)
  finally show ?thesis by blast
qed






section \<open>Facts about the pass\<close>

lemma ready_initConverters: "ready (cache (initConverters p))"
  by (simp add: initConverters_def ready_def)

lemma initConverters_ready_id: "ready (cache p) \<Longrightarrow> initConverters p = p"
  by (auto simp: initConverters_def ready_def)

lemma callConverter_ready:
  "inst \<noteq> None \<Longrightarrow>
     callConverter f inst s = (case f s of None \<Rightarrow> Inl ConversionFailure | Some t \<Rightarrow> Inr t)"
  by (auto simp: callConverter_def)

lemma variants_cache:
  assumes "ready cv" "ready cv'"
  shows "variants e cv s = variants e cv' s"
proof -
  from assms have r: "toTraditional cv \<noteq> None" "toSimplified cv \<noteq> None"
    "toTraditional cv' \<noteq> None" "toSimplified cv' \<noteq> None"
    by (simp_all add: ready_def)
  show ?thesis
    unfolding variants_def r [THEN callConverter_ready] by (rule refl)
qed

lemma tbody_initConverters: "tbody (initConverters p) = tbody p"
  by (simp add: initConverters_def)

lemma variants_pure:
  assumes "ready cv" "cn2twp e s = Some a" "tw2cn e s = Some b"
  shows "variants e cv s = Inr [toLowerCase e s, toLowerCase e a, toLowerCase e b]"
  using assms by (auto simp: variants_def callConverter_def ready_def)

lemma variants_total:
  assumes "ready cv" "cn2twp e s \<noteq> None" "tw2cn e s \<noteq> None"
  shows "\<exists>vs. variants e cv s = Inr vs"
  using assms by (auto simp: variants_def callConverter_def ready_def)

lemma variants_error:
  assumes "ready cv" "variants e cv s = Inl err"
  shows "err = ConversionFailure \<and> (cn2twp e s = None \<or> tw2cn e s = None)"
  using assms by (auto simp: variants_def callConverter_def ready_def split: option.splits)

lemma variants_fails:
  assumes "cn2twp e s = None \<or> tw2cn e s = None"
  shows "\<exists>err. variants e cv s = Inl err"
  using assms by (auto simp: variants_def callConverter_def split: option.splits)

lemma termVariants_pure:
  assumes "ready cv" "\<forall>s. cn2twp e s = Some (A s)" "\<forall>s. tw2cn e s = Some (B s)"
  shows "termVariants e cv ts =
           Inr (concat (map (\<lambda>t. [toLowerCase e t, toLowerCase e (A t), toLowerCase e (B t)]) ts))"
  using assms by (induction ts) (simp_all add: variants_pure)

lemma termVariants_error:
  assumes "ready cv" "termVariants e cv ts = Inl err"
  shows "err = ConversionFailure"
  using assms
  by (induction ts) (auto split: sum.splits dest: variants_error)

lemma matchesGroup_plain_pure:
  assumes "ready cv" "\<forall>s. cn2twp e s = Some (A s)" "\<forall>s. tw2cn e s = Some (B s)"
    and "\<not> isRegexGroup g"
  shows "matchesGroup e cv tvs g =
           Inr (\<exists>t\<in>set (terms g).
                  \<exists>w\<in>set [toLowerCase e t, toLowerCase e (A t), toLowerCase e (B t)].
                    \<exists>v\<in>set tvs. includes_js v w)"
proof -
  have "matchesGroup e cv tvs g =
          Inr (list_ex (\<lambda>v. list_ex (\<lambda>w. includes_js v w)
                 (concat (map (\<lambda>t. [toLowerCase e t, toLowerCase e (A t), toLowerCase e (B t)])
                    (terms g)))) tvs)"
    using assms(4) by (simp add: matchesGroup_def termVariants_pure [OF assms(1-3)])
  also have "\<dots> = Inr (\<exists>t\<in>set (terms g).
                  \<exists>w\<in>set [toLowerCase e t, toLowerCase e (A t), toLowerCase e (B t)].
                    \<exists>v\<in>set tvs. includes_js v w)"
    unfolding list_ex_iff by auto
  finally show ?thesis .
qed

lemma matchesGroup_regex:
  assumes "isRegexGroup g"
  shows "matchesGroup e cv tvs g =
           Inr (case RegExp_i e (slice_1_m1 g) of
                  Some regex \<Rightarrow> list_ex regex tvs
                | None \<Rightarrow> list_ex (\<lambda>v. includes_js v (toLowerCase e g)) tvs)"
  using assms by (simp add: matchesGroup_def split: option.splits)

lemma total_as_pure:
  assumes "\<forall>s. f s \<noteq> None"
  shows "\<forall>s. f s = Some ((\<lambda>s. the (f s)) s)"
  using assms by simp

lemma matchesGroup_total:
  assumes "ready cv" "\<forall>s. cn2twp e s \<noteq> None" "\<forall>s. tw2cn e s \<noteq> None"
  shows "\<exists>b. matchesGroup e cv tvs g = Inr b"
proof (cases "isRegexGroup g")
  case True
  then show ?thesis by (simp add: matchesGroup_regex)
next
  case False
  show ?thesis
    using matchesGroup_plain_pure [OF assms(1) total_as_pure [OF assms(2)] total_as_pure [OF assms(3)] False]
    by blast
qed

lemma matchesGroup_error:
  assumes "ready cv" "matchesGroup e cv tvs g = Inl err"
  shows "err = ConversionFailure"
  using assms
  by (auto simp: matchesGroup_def split: if_splits option.splits sum.splits dest: termVariants_error)

lemma matchesGroup_cache:
  assumes "ready cv" "ready cv'"
  shows "matchesGroup e cv tvs g = matchesGroup e cv' tvs g"
proof -
  have v: "\<And>s. variants e cv s = variants e cv' s"
    using assms by (rule variants_cache)
  have "termVariants e cv ts = termVariants e cv' ts" for ts
    by (induction ts) (simp_all add: v split: sum.splits)
  then show ?thesis by (simp add: matchesGroup_def)
qed

lemma every_total:
  assumes "\<forall>x. \<exists>b. f x = Inr b"
  shows "every f xs = Inr (\<forall>x\<in>set xs. f x = Inr True)"
proof (rule every_pure)
  fix x
  from assms obtain b where "f x = Inr b" by blast
  then show "f x = Inr (f x = Inr True)" by simp
qed

lemma every_error:
  assumes "every f xs = Inl err"
  shows "\<exists>x\<in>set xs. f x = Inl err"
  using assms by (induction xs) (auto split: sum.splits if_splits)

lemma matchesAllGroups_total:
  assumes "ready cv" "\<forall>s. cn2twp e s \<noteq> None" "\<forall>s. tw2cn e s \<noteq> None"
  shows "matchesAllGroups e cv gs ttl =
           Inr (\<forall>g\<in>set gs. matchesGroup e cv
                  [toLowerCase e ttl, toLowerCase e (the (cn2twp e ttl)), toLowerCase e (the (tw2cn e ttl))] g = Inr True)"
proof -
  have v: "variants e cv ttl = Inr [toLowerCase e ttl, toLowerCase e (the (cn2twp e ttl)), toLowerCase e (the (tw2cn e ttl))]"
    using assms by (intro variants_pure) auto
  show ?thesis
    unfolding matchesAllGroups_def v
    using matchesGroup_total [OF assms] by (simp add: every_total)
qed

lemma matchesAllGroups_cache:
  assumes "ready cv" "ready cv'"
  shows "matchesAllGroups e cv gs ttl = matchesAllGroups e cv' gs ttl"
proof -
  have v: "variants e cv ttl = variants e cv' ttl"
    using assms by (rule variants_cache)
  have m: "matchesGroup e cv tvs = matchesGroup e cv' tvs" for tvs
    using matchesGroup_cache [OF assms] by blast
  show ?thesis by (simp add: matchesAllGroups_def v m split: sum.splits)
qed

lemma matchesAllGroups_error:
  assumes "ready cv" "matchesAllGroups e cv gs ttl = Inl err"
  shows "err = ConversionFailure"
  using assms
  by (auto simp: matchesAllGroups_def split: sum.splits dest: variants_error every_error matchesGroup_error)

lemma processRows_ok:
  assumes "\<forall>r\<in>set rows. \<exists>b. matchesAllGroups e cv gs (title r) = Inr b"
  shows "processRows e cv gs fragment rows =
           Inr (fragment @ map (\<lambda>r. r\<lparr>display := (if matchesAllGroups e cv gs (title r) = Inr True
                                                    then '''' else ''none'')\<rparr>) rows)"
  using assms
proof (induction rows arbitrary: fragment)
  case Nil
  then show ?case by simp
next
  case (Cons r rows)
  from Cons.prems obtain b where b: "matchesAllGroups e cv gs (title r) = Inr b" by auto
  have "processRows e cv gs fragment (r # rows) =
          processRows e cv gs (fragment @ [r\<lparr>display := (if b then '''' else ''none'')\<rparr>]) rows"
    by (simp add: processRow_def b)
  also have "\<dots> = Inr ((fragment @ [r\<lparr>display := (if b then '''' else ''none'')\<rparr>]) @
                 map (\<lambda>r. r\<lparr>display := (if matchesAllGroups e cv gs (title r) = Inr True
                                          then '''' else ''none'')\<rparr>) rows)"
    using Cons.prems by (intro Cons.IH) simp
  finally show ?case by (simp add: b)
qed

lemma processRows_shape:
  assumes "processRows e cv gs fragment rows = Inr out"
  shows "\<exists>ds. length ds = length rows \<and>
           out = fragment @ map (\<lambda>(r, d). r\<lparr>display := d\<rparr>) (zip rows ds)"
  using assms
proof (induction rows arbitrary: fragment out)
  case Nil
  then show ?case by simp
next
  case (Cons r rows)
  from Cons.prems obtain r' where r': "processRow e cv gs r = Inr r'"
    and rest: "processRows e cv gs (fragment @ [r']) rows = Inr out"
    by (auto split: sum.splits)
  from r' obtain d where d: "r' = r\<lparr>display := d\<rparr>"
    by (auto simp: processRow_def split: sum.splits)
  from Cons.IH [OF rest] obtain ds where ds: "length ds = length rows"
    "out = (fragment @ [r']) @ map (\<lambda>(r, d). r\<lparr>display := d\<rparr>) (zip rows ds)" by blast
  have "length (d # ds) = length (r # rows) \<and>
        out = fragment @ map (\<lambda>(r, d). r\<lparr>display := d\<rparr>) (zip (r # rows) (d # ds))"
    using ds d by simp
  then show ?case by blast
qed

lemma processRows_fails:
  assumes "r \<in> set rows" "\<exists>err. matchesAllGroups e cv gs (title r) = Inl err"
  shows "\<exists>err. processRows e cv gs fragment rows = Inl err"
  using assms
proof (induction rows arbitrary: fragment)
  case Nil
  then show ?case by simp
next
  case (Cons x rows)
  show ?case
  proof (cases "processRow e cv gs x")
    case (Inl err)
    then show ?thesis by simp
  next
    case (Inr x')
    then have "x \<noteq> r" using Cons.prems(2) by (auto simp: processRow_def split: sum.splits)
    with Cons.prems have "r \<in> set rows" by simp
    from Cons.IH [OF this Cons.prems(2)] show ?thesis by (simp add: Inr)
  qed
qed

lemma processRows_error:
  assumes "ready cv" "processRows e cv gs fragment rows = Inl err"
  shows "err = ConversionFailure"
  using assms
proof (induction rows arbitrary: fragment)
  case Nil
  then show ?case by simp
next
  case (Cons x rows)
  then show ?case
    by (auto simp: processRow_def split: sum.splits dest: matchesAllGroups_error)
qed

lemma blank_filterGroups: "keywords = [] \<or> trim keywords = [] \<Longrightarrow> filterGroups keywords = []"
  by (auto simp: filterGroups_empty_iff trim_empty_iff)

lemma filterTitles_total:
  assumes "\<forall>s. cn2twp e s \<noteq> None" "\<forall>s. tw2cn e s \<noteq> None"
  shows "filterTitles e keywords p =
           (Inr (),
            (if keywords = [] \<or> trim keywords = [] then p else initConverters p)
              \<lparr>tbody := map (\<lambda>r. r\<lparr>display :=
                                    (if matchesAllGroups e (cache (initConverters p))
                                          (filterGroups keywords) (title r) = Inr True
                                     then '''' else ''none'')\<rparr>) (tbody p)\<rparr>)"
proof (cases "keywords = [] \<or> trim keywords = []")
  case True
  have "matchesAllGroups e (cache (initConverters p)) [] ttl = Inr True" for ttl
    using matchesAllGroups_total [OF ready_initConverters assms] by simp
  with True show ?thesis
    by (simp add: filterTitles_def blank_filterGroups)
next
  case False
  let ?cv = "cache (initConverters p)"
  have "\<forall>r\<in>set (tbody p). \<exists>b. matchesAllGroups e ?cv (filterGroups keywords) (title r) = Inr b"
    using matchesAllGroups_total [OF ready_initConverters assms] by blast
  from processRows_ok [OF this, of "[]"] False show ?thesis
    by (simp add: filterTitles_def Let_def tbody_initConverters)
qed




lemma split_js_head:
  "\<not> sep c \<Longrightarrow> \<exists>piece pieces. split_js sep (c # s) = (c # piece) # pieces"
  by (cases "split_js sep s") (auto simp: split_js_nonempty)

lemma no_terms_not_regex:
  assumes "terms g = []"
  shows "\<not> isRegexGroup g"
proof
  assume "isRegexGroup g"
  then obtain q where q: "g = 0x2F # q"
    by (auto simp: isRegexGroup_def startsWith_iff)
  have "\<not> (0x2F :: jschar) = 0x7C" by simp
  from split_js_head [of "\<lambda>c. c = 0x7C" "0x2F" q, OF this]
  obtain piece pieces where sp: "split_js (\<lambda>c. c = 0x7C) g = (0x2F # piece) # pieces"
    using q by blast
  have "\<not> isWhiteSpace 0x2F" by (simp add: isWhiteSpace_def)
  then have "trim (0x2F # piece) \<noteq> []" by (auto simp: trim_empty_iff)
  then have "terms g \<noteq> []" by (simp add: terms_def sp)
  with assms show False by simp
qed

lemma no_terms_no_match:
  assumes "terms g = []"
  shows "matchesGroup e cv tvs g = Inr False"
  using no_terms_not_regex [OF assms] assms
  by (simp add: matchesGroup_def list_ex_iff)

lemma separator_not_blank:
  assumes "isAndSeparator c"
  shows "\<not> (a @ c # b = [] \<or> trim (a @ c # b) = [])"
proof -
  from assms have "\<not> isWhiteSpace c" by (auto simp: isAndSeparator_def isWhiteSpace_def)
  then show ?thesis by (auto simp: trim_empty_iff)
qed

lemma filterGroups_not_blank:
  assumes "filterGroups keywords \<noteq> []"
  shows "\<not> (keywords = [] \<or> trim keywords = [])"
  using assms blank_filterGroups by blast

lemma map2_same: "map2 h (map f xs) (map g xs) = map (\<lambda>x. h (f x) (g x)) xs"
  by (induction xs) simp_all


lemma map_rid_zip:
  "length ds = length rows \<Longrightarrow>
     map rid (map (\<lambda>(r, d). r\<lparr>display := d\<rparr>) (zip rows ds)) = map rid rows
   \<and> map title (map (\<lambda>(r, d). r\<lparr>display := d\<rparr>) (zip rows ds)) = map title rows"
  by (induction rows ds rule: list_induct2') simp_all

lemma cache_filterTitles:
  "cache (snd (filterTitles e keywords p)) =
     cache (if keywords = [] \<or> trim keywords = [] then p else initConverters p)
   \<and> constructed (snd (filterTitles e keywords p)) =
     constructed (if keywords = [] \<or> trim keywords = [] then p else initConverters p)"
  by (simp add: filterTitles_def Let_def split: sum.splits)

lemma filterTitles_keeps_ready:
  assumes "ready (cache p)"
  shows "cache (snd (filterTitles e keywords p)) = cache p
       \<and> constructed (snd (filterTitles e keywords p)) = constructed p"
  using assms by (simp add: cache_filterTitles initConverters_ready_id)

lemma passes_keep_ready:
  assumes "ready (cache p)"
  shows "cache (passes e kws p) = cache p \<and> constructed (passes e kws p) = constructed p"
  using assms
proof (induction kws arbitrary: p)
  case Nil
  then show ?case by simp
next
  case (Cons kw kws)
  let ?q = "snd (filterTitles e kw p)"
  from filterTitles_keeps_ready [OF Cons.prems]
  have q: "cache ?q = cache p" "constructed ?q = constructed p" by simp_all
  with Cons.prems have "ready (cache ?q)" by simp
  from Cons.IH [OF this] q show ?case by simp
qed

lemma passes_from_initial:
  assumes "cache p = initial_cache" "constructed p = 0"
  shows "(constructed (passes e kws p) = 0 \<and> cache (passes e kws p) = initial_cache)
       \<or> (constructed (passes e kws p) = 2
           \<and> cache (passes e kws p) = \<lparr>toTraditional = Some 0, toSimplified = Some 1\<rparr>)"
  using assms
proof (induction kws arbitrary: p)
  case Nil
  then show ?case by simp
next
  case (Cons kw kws)
  let ?q = "snd (filterTitles e kw p)"
  show ?case
  proof (cases "kw = [] \<or> trim kw = []")
    case True
    then have "cache ?q = initial_cache" "constructed ?q = 0"
      using Cons.prems by (simp_all add: cache_filterTitles)
    from Cons.IH [OF this] show ?thesis by simp
  next
    case False
    then have q: "cache ?q = \<lparr>toTraditional = Some 0, toSimplified = Some 1\<rparr>" "constructed ?q = 2"
      using Cons.prems by (simp_all add: cache_filterTitles initConverters_def initial_cache_def)
    then have "ready (cache ?q)" by (simp add: ready_def)
    from passes_keep_ready [OF this, of e kws] q show ?thesis by simp
  qed
qed

section \<open>The claims\<close>

subsection \<open>Invalid regular expressions\<close>

text \<open>
  Claim C1, as the code has it. A group between slashes whose body the regular-expression
  constructor rejects never raises. The fallback searches every title variant for the
  lowercased \<^emph>\<open>whole\<close> group, the two slashes included; the group is not split at
  \<^verbatim>\<open>|\<close> and is not converted. For a rule that is this one group, and a capability
  that never throws, a pass shows exactly the rows one of whose title variants contains
  that text.
\<close>

theorem invalid_regex_falls_back_to_whole_segment:
  assumes "isRegexGroup g" and "RegExp_i e (slice_1_m1 g) = None"
  shows "matchesGroup e cv tvs g = Inr (list_ex (\<lambda>v. includes_js v (toLowerCase e g)) tvs)
       \<and> ((\<forall>s. cn2twp e s = Some (A s)) \<and> (\<forall>s. tw2cn e s = Some (B s)) \<and>
            filterGroups keywords = [g] \<longrightarrow>
          filterTitles e keywords p =
            (Inr (), (initConverters p)\<lparr>tbody :=
               map (\<lambda>r. r\<lparr>display :=
                     (if list_ex (\<lambda>v. includes_js v (toLowerCase e g))
                           [toLowerCase e (title r), toLowerCase e (A (title r)),
                            toLowerCase e (B (title r))]
                      then '''' else ''none'')\<rparr>) (tbody p)\<rparr>))"
proof (intro conjI impI)
  show m: "matchesGroup e cv tvs g = Inr (list_ex (\<lambda>v. includes_js v (toLowerCase e g)) tvs)"
    for cv tvs
    using assms by (simp add: matchesGroup_regex)
  assume h: "(\<forall>s. cn2twp e s = Some (A s)) \<and> (\<forall>s. tw2cn e s = Some (B s)) \<and>
            filterGroups keywords = [g]"
  then have tot: "\<forall>s. cn2twp e s \<noteq> None" "\<forall>s. tw2cn e s \<noteq> None" by simp_all
  from h have nb: "\<not> (keywords = [] \<or> trim keywords = [])"
    by (intro filterGroups_not_blank) simp
  have "matchesAllGroups e (cache (initConverters p)) [g] ttl =
          Inr (list_ex (\<lambda>v. includes_js v (toLowerCase e g))
                 [toLowerCase e ttl, toLowerCase e (A ttl), toLowerCase e (B ttl)])" for ttl
    using h by (simp add: matchesAllGroups_total [OF ready_initConverters tot] m)
  then show "filterTitles e keywords p =
            (Inr (), (initConverters p)\<lparr>tbody :=
               map (\<lambda>r. r\<lparr>display :=
                     (if list_ex (\<lambda>v. includes_js v (toLowerCase e g))
                           [toLowerCase e (title r), toLowerCase e (A (title r)),
                            toLowerCase e (B (title r))]
                      then '''' else ''none'')\<rparr>) (tbody p)\<rparr>)"
    using nb h by (simp add: filterTitles_total [OF tot])
qed

text \<open>
  The rule \<^verbatim>\<open> /[ABC/ ;\<close> on two rows: the row whose title is \<^verbatim>\<open>[abc\<close> is hidden, the
  row whose title contains \<^verbatim>\<open>/[abc/\<close> stays.
\<close>

theorem invalid_regex_falls_back_to_whole_segment_witness:
  "isRegexGroup (ascii ''/[ABC/'')
   \<and> RegExp_i demo_env (slice_1_m1 (ascii ''/[ABC/'')) = None
   \<and> filterGroups (ascii '' /[ABC/ ;'') = [ascii ''/[ABC/'']
   \<and> matchesGroup demo_env initial_cache [ascii ''x /[abc/ y''] (ascii ''/[ABC/'') = Inr True
   \<and> shown (snd (filterTitles demo_env (ascii '' /[ABC/ ;'')
              (initial_page [mk_row 0 (ascii ''[abc''), mk_row 1 (ascii ''x /[abc/ y'')])))
       = [False, True]"
proof -
  have h1: "isRegexGroup (ascii ''/[ABC/'')" by code_simp
  have h2: "RegExp_i demo_env (slice_1_m1 (ascii ''/[ABC/'')) = None" by code_simp
  have h3: "filterGroups (ascii '' /[ABC/ ;'') = [ascii ''/[ABC/'']" by code_simp
  have h4: "(\<forall>s. cn2twp demo_env s = Some (demo_cn2twp s))
            \<and> (\<forall>s. tw2cn demo_env s = Some (demo_tw2cn s))"
    by (simp add: demo_env_def)
  have v1: "list_ex (\<lambda>v. includes_js v (toLowerCase demo_env (ascii ''/[ABC/'')))
              [ascii ''x /[abc/ y''] = True"
    by code_simp
  have v2: "shown ((initConverters
               (initial_page [mk_row 0 (ascii ''[abc''), mk_row 1 (ascii ''x /[abc/ y'')]))
              \<lparr>tbody :=
                 map (\<lambda>r. r\<lparr>display :=
                       (if list_ex (\<lambda>v. includes_js v (toLowerCase demo_env (ascii ''/[ABC/'')))
                             [toLowerCase demo_env (title r),
                              toLowerCase demo_env (demo_cn2twp (title r)),
                              toLowerCase demo_env (demo_tw2cn (title r))]
                        then '''' else ''none'')\<rparr>)
                   (tbody (initial_page
                      [mk_row 0 (ascii ''[abc''), mk_row 1 (ascii ''x /[abc/ y'')]))\<rparr>)
            = [False, True]"
    by code_simp
  note t = invalid_regex_falls_back_to_whole_segment [OF h1 h2,
      of initial_cache "[ascii ''x /[abc/ y'']" demo_cn2twp demo_tw2cn "ascii '' /[ABC/ ;''"
         "initial_page [mk_row 0 (ascii ''[abc''), mk_row 1 (ascii ''x /[abc/ y'')]"]
  from t have a: "matchesGroup demo_env initial_cache [ascii ''x /[abc/ y''] (ascii ''/[ABC/'')
                  = Inr True"
    by (simp only: v1)
  from t h3 h4 have "filterTitles demo_env (ascii '' /[ABC/ ;'')
         (initial_page [mk_row 0 (ascii ''[abc''), mk_row 1 (ascii ''x /[abc/ y'')]) =
       (Inr (), (initConverters
               (initial_page [mk_row 0 (ascii ''[abc''), mk_row 1 (ascii ''x /[abc/ y'')]))
              \<lparr>tbody :=
                 map (\<lambda>r. r\<lparr>display :=
                       (if list_ex (\<lambda>v. includes_js v (toLowerCase demo_env (ascii ''/[ABC/'')))
                             [toLowerCase demo_env (title r),
                              toLowerCase demo_env (demo_cn2twp (title r)),
                              toLowerCase demo_env (demo_tw2cn (title r))]
                        then '''' else ''none'')\<rparr>)
                   (tbody (initial_page
                      [mk_row 0 (ascii ''[abc''), mk_row 1 (ascii ''x /[abc/ y'')]))\<rparr>)"
    by blast
  then have b: "shown (snd (filterTitles demo_env (ascii '' /[ABC/ ;'')
              (initial_page [mk_row 0 (ascii ''[abc''), mk_row 1 (ascii ''x /[abc/ y'')])))
       = [False, True]"
    by (simp only: snd_conv v2)
  from h1 h2 h3 a b show ?thesis by blast
qed

text \<open>
  Claim C1, as the specification states it, against the code. The pattern body of
  \<^verbatim>\<open>/[abc/\<close> is \<^verbatim>\<open>[abc\<close> and does not compile. A title that is exactly \<^verbatim>\<open>[abc\<close>
  contains the body, and the plain rule \<^verbatim>\<open>[abc\<close> shows it; the rule \<^verbatim>\<open>/[abc/\<close> hides
  it.
\<close>

theorem invalid_regex_body_is_not_what_is_searched:
  "RegExp_i demo_env (slice_1_m1 (ascii ''/[abc/'')) = None
   \<and> slice_1_m1 (ascii ''/[abc/'') = ascii ''[abc''
   \<and> includes_js (toLowerCase demo_env (ascii ''[abc'')) (toLowerCase demo_env (ascii ''[abc''))
   \<and> shown (snd (filterTitles demo_env (ascii ''/[abc/'') (initial_page [mk_row 0 (ascii ''[abc'')])))
       = [False]
   \<and> shown (snd (filterTitles demo_env (ascii ''[abc'') (initial_page [mk_row 0 (ascii ''[abc'')])))
       = [True]"
  by code_simp

subsection \<open>Rules without a group\<close>

text \<open>
  Claim C2. A rule made only of white space and AND-separators has no group, and a
  pass under it returns and leaves every row with an empty display, in place. When
  the rule holds a separator the pass computes the variants of every title, so the
  capability must not throw on the titles; a rule of white space alone asks nothing of
  the capability.
\<close>

theorem separator_only_rule_shows_every_row:
  assumes "\<forall>c\<in>set keywords. isWhiteSpace c \<or> isAndSeparator c"
    and "(\<forall>c\<in>set keywords. isWhiteSpace c)
         \<or> (\<forall>r\<in>set (tbody p). cn2twp e (title r) \<noteq> None \<and> tw2cn e (title r) \<noteq> None)"
  shows "filterGroups keywords = []
       \<and> fst (filterTitles e keywords p) = Inr ()
       \<and> tbody (snd (filterTitles e keywords p)) = map (\<lambda>r. r\<lparr>display := ''''\<rparr>) (tbody p)"
proof -
  have g: "filterGroups keywords = []"
    using assms(1) by (simp add: filterGroups_empty_iff)
  show ?thesis
  proof (cases "keywords = [] \<or> trim keywords = []")
    case True
    then show ?thesis by (simp add: g filterTitles_def)
  next
    case False
    then have "\<not> (\<forall>c\<in>set keywords. isWhiteSpace c)" by (simp add: trim_empty_iff)
    with assms(2) have ok: "\<forall>r\<in>set (tbody p). cn2twp e (title r) \<noteq> None \<and> tw2cn e (title r) \<noteq> None"
      by blast
    let ?cv = "cache (initConverters p)"
    have allm: "\<forall>r\<in>set (tbody p). matchesAllGroups e ?cv [] (title r) = Inr True"
    proof
      fix r assume "r \<in> set (tbody p)"
      with ok obtain vs where "variants e ?cv (title r) = Inr vs"
        using variants_total [OF ready_initConverters] by blast
      then show "matchesAllGroups e ?cv [] (title r) = Inr True"
        by (simp add: matchesAllGroups_def)
    qed
    then have "\<forall>r\<in>set (tbody p). \<exists>b. matchesAllGroups e ?cv [] (title r) = Inr b"
      by blast
    from processRows_ok [OF this, of "[]"] allm
    have "processRows e ?cv [] [] (tbody p) = Inr (map (\<lambda>r. r\<lparr>display := ''''\<rparr>) (tbody p))"
      by simp
    with False show ?thesis
      by (simp add: g filterTitles_def Let_def tbody_initConverters)
  qed
qed

text \<open>
  The rule \<^verbatim>\<open> ; \<close> followed by a full-width semicolon, on a page whose second row a
  former pass had hidden.
\<close>

theorem separator_only_rule_shows_every_row_witness:
  "list_all (\<lambda>c. isWhiteSpace c \<or> isAndSeparator c) (ascii '' ; '' @ [0xFF1B])
   \<and> \<not> list_all isWhiteSpace (ascii '' ; '' @ [0xFF1B])
   \<and> fst (filterTitles demo_env (ascii '' ; '' @ [0xFF1B])
        (initial_page [mk_row 0 (ascii ''a''), (mk_row 1 (ascii ''b''))\<lparr>display := ''none''\<rparr>]))
       = Inr ()
   \<and> tbody (snd (filterTitles demo_env (ascii '' ; '' @ [0xFF1B])
        (initial_page [mk_row 0 (ascii ''a''), (mk_row 1 (ascii ''b''))\<lparr>display := ''none''\<rparr>])))
       = [mk_row 0 (ascii ''a''), mk_row 1 (ascii ''b'')]"
proof -
  have h1: "\<forall>c\<in>set (ascii '' ; '' @ [0xFF1B]). isWhiteSpace c \<or> isAndSeparator c"
    by (simp add: ascii_def isWhiteSpace_def isAndSeparator_def)
  have h1': "\<not> (\<forall>c\<in>set (ascii '' ; '' @ [0xFF1B]). isWhiteSpace c)"
    by (simp add: ascii_def isWhiteSpace_def)
  have h2: "(\<forall>c\<in>set (ascii '' ; '' @ [0xFF1B]). isWhiteSpace c)
         \<or> (\<forall>r\<in>set (tbody (initial_page
                 [mk_row 0 (ascii ''a''), (mk_row 1 (ascii ''b''))\<lparr>display := ''none''\<rparr>])).
               cn2twp demo_env (title r) \<noteq> None \<and> tw2cn demo_env (title r) \<noteq> None)"
    by (simp add: demo_env_def)
  have v: "map (\<lambda>r. r\<lparr>display := ''''\<rparr>)
             (tbody (initial_page
                 [mk_row 0 (ascii ''a''), (mk_row 1 (ascii ''b''))\<lparr>display := ''none''\<rparr>]))
           = [mk_row 0 (ascii ''a''), mk_row 1 (ascii ''b'')]"
    by (simp add: initial_page_def mk_row_def)
  from separator_only_rule_shows_every_row [OF h1 h2] h1 h1' v show ?thesis
    by (simp add: list_all_iff)
qed


subsection \<open>AND across groups\<close>

text \<open>
  Claim C3. With a capability that never throws, a pass under \<open>R1 ; R2\<close> returns and
  shows a row exactly when the pass under \<open>R1\<close> and the pass under \<open>R2\<close> both show
  it. Exchanging the two sides gives the same result of the pass, and so does writing
  the other of the two separators (U+003B, U+FF1B).
\<close>

theorem and_of_groups_is_conjunction:
  assumes "\<forall>s. cn2twp e s \<noteq> None" and "\<forall>s. tw2cn e s \<noteq> None"
    and "isAndSeparator c" and "isAndSeparator c'"
  shows "fst (filterTitles e (R1 @ c # R2) p) = Inr ()
       \<and> shown (snd (filterTitles e (R1 @ c # R2) p)) =
           map2 (\<and>) (shown (snd (filterTitles e R1 p))) (shown (snd (filterTitles e R2 p)))
       \<and> filterTitles e (R2 @ c # R1) p = filterTitles e (R1 @ c # R2) p
       \<and> filterTitles e (R1 @ c' # R2) p = filterTitles e (R1 @ c # R2) p"
proof -
  let ?cv = "cache (initConverters p)"
  let ?tv = "\<lambda>ttl. [toLowerCase e ttl, toLowerCase e (the (cn2twp e ttl)),
                     toLowerCase e (the (tw2cn e ttl))]"
  let ?M = "\<lambda>gs ttl. \<forall>g\<in>set gs. matchesGroup e ?cv (?tv ttl) g = Inr True"
  have m: "matchesAllGroups e ?cv gs ttl = Inr (?M gs ttl)" for gs ttl
    by (rule matchesAllGroups_total [OF ready_initConverters assms(1,2)])
  have run: "filterTitles e kw p =
      (Inr (), (if kw = [] \<or> trim kw = [] then p else initConverters p)
         \<lparr>tbody := map (\<lambda>r. r\<lparr>display := (if ?M (filterGroups kw) (title r)
                                            then '''' else ''none'')\<rparr>) (tbody p)\<rparr>)"
    for kw
    by (simp add: filterTitles_total [OF assms(1,2)] m)
  have sh: "shown (snd (filterTitles e kw p)) =
              map (\<lambda>r. ?M (filterGroups kw) (title r)) (tbody p)" for kw
    by (simp add: run shown_def)
  have g12: "filterGroups (R1 @ c # R2) = filterGroups R1 @ filterGroups R2"
    and g21: "filterGroups (R2 @ c # R1) = filterGroups R2 @ filterGroups R1"
    and g12': "filterGroups (R1 @ c' # R2) = filterGroups R1 @ filterGroups R2"
    using assms(3,4) by (simp_all add: filterGroups_append)
  have nb: "\<not> (R1 @ c # R2 = [] \<or> trim (R1 @ c # R2) = [])"
    "\<not> (R2 @ c # R1 = [] \<or> trim (R2 @ c # R1) = [])"
    "\<not> (R1 @ c' # R2 = [] \<or> trim (R1 @ c' # R2) = [])"
    using assms(3,4) by (simp_all only: separator_not_blank not_False_eq_True)
  have a: "fst (filterTitles e (R1 @ c # R2) p) = Inr ()"
    by (simp add: run)
  have b: "shown (snd (filterTitles e (R1 @ c # R2) p)) =
           map2 (\<and>) (shown (snd (filterTitles e R1 p))) (shown (snd (filterTitles e R2 p)))"
    unfolding sh g12 map2_same by (simp add: ball_Un)
  have M_comm: "?M (filterGroups R2 @ filterGroups R1) ttl = ?M (filterGroups R1 @ filterGroups R2) ttl"
    for ttl by auto
  have c: "filterTitles e (R2 @ c # R1) p = filterTitles e (R1 @ c # R2) p"
    unfolding run [of "R2 @ c # R1"] run [of "R1 @ c # R2"] g12 g21 M_comm
    using nb by simp
  have d: "filterTitles e (R1 @ c' # R2) p = filterTitles e (R1 @ c # R2) p"
    unfolding run [of "R1 @ c' # R2"] run [of "R1 @ c # R2"] g12 g12'
    using nb by simp
  from a b c d show ?thesis by blast
qed

text \<open>
  The groups \<^verbatim>\<open>hevc|x265\<close> and U+7B80 U+4F53 on the four rows: the first group
  alone shows rows 0, 1, 2; the second alone rows 0, 2, 3; together rows 0 and 2.
\<close>

theorem and_of_groups_is_conjunction_witness:
  "isAndSeparator 0x3B \<and> isAndSeparator 0xFF1B
   \<and> shown (snd (filterTitles demo_env (ascii ''hevc|x265'') demo_page))
       = [True, True, True, False]
   \<and> shown (snd (filterTitles demo_env [0x7B80, 0x4F53] demo_page))
       = [True, False, True, True]
   \<and> shown (snd (filterTitles demo_env (ascii ''hevc|x265'' @ 0x3B # [0x7B80, 0x4F53]) demo_page))
       = [True, False, True, False]
   \<and> filterTitles demo_env ([0x7B80, 0x4F53] @ 0x3B # ascii ''hevc|x265'') demo_page
       = filterTitles demo_env (ascii ''hevc|x265'' @ 0x3B # [0x7B80, 0x4F53]) demo_page
   \<and> filterTitles demo_env (ascii ''hevc|x265'' @ 0xFF1B # [0x7B80, 0x4F53]) demo_page
       = filterTitles demo_env (ascii ''hevc|x265'' @ 0x3B # [0x7B80, 0x4F53]) demo_page"
proof -
  have h1: "\<forall>s. cn2twp demo_env s \<noteq> None" and h2: "\<forall>s. tw2cn demo_env s \<noteq> None"
    by (simp_all add: demo_env_def)
  have h3: "isAndSeparator 0x3B" and h4: "isAndSeparator 0xFF1B"
    by (simp_all add: isAndSeparator_def)
  have v1: "shown (snd (filterTitles demo_env (ascii ''hevc|x265'') demo_page))
              = [True, True, True, False]"
    by code_simp
  have v2: "shown (snd (filterTitles demo_env [0x7B80, 0x4F53] demo_page))
              = [True, False, True, True]"
    by code_simp
  note t = and_of_groups_is_conjunction [OF h1 h2 h3 h4,
      of "ascii ''hevc|x265''" "[0x7B80, 0x4F53]" demo_page]
  from t have "shown (snd (filterTitles demo_env
                  (ascii ''hevc|x265'' @ 0x3B # [0x7B80, 0x4F53]) demo_page))
       = map2 (\<and>) [True, True, True, False] [True, False, True, True]"
    by (simp only: v1 v2)
  then have v3: "shown (snd (filterTitles demo_env
                  (ascii ''hevc|x265'' @ 0x3B # [0x7B80, 0x4F53]) demo_page))
       = [True, False, True, False]"
    by simp
  from t h3 h4 v1 v2 v3 show ?thesis by blast
qed

subsection \<open>Plain groups\<close>



subsection \<open>Groups without a term\<close>

text \<open>
  Claim C5. A group of the rule that yields no term after splitting at \<^verbatim>\<open>|\<close>,
  trimming and dropping the empty parts matches no title, whatever the environment;
  with a capability that never throws, a pass under such a rule returns and hides every
  row.
\<close>

theorem group_without_terms_hides_every_row:
  assumes "g \<in> set (filterGroups keywords)" and "terms g = []"
  shows "matchesGroup e cv tvs g = Inr False
       \<and> ((\<forall>s. cn2twp e s \<noteq> None) \<and> (\<forall>s. tw2cn e s \<noteq> None) \<longrightarrow>
            filterTitles e keywords p =
              (Inr (), (initConverters p)\<lparr>tbody :=
                          map (\<lambda>r. r\<lparr>display := ''none''\<rparr>) (tbody p)\<rparr>))"
proof (intro conjI impI)
  show m: "matchesGroup e cv tvs g = Inr False" for cv tvs
    by (rule no_terms_no_match [OF assms(2)])
  assume tot: "(\<forall>s. cn2twp e s \<noteq> None) \<and> (\<forall>s. tw2cn e s \<noteq> None)"
  then have t1: "\<forall>s. cn2twp e s \<noteq> None" and t2: "\<forall>s. tw2cn e s \<noteq> None" by simp_all
  from assms(1) have "filterGroups keywords \<noteq> []" by auto
  then have nb: "\<not> (keywords = [] \<or> trim keywords = [])" by (rule filterGroups_not_blank)
  have "\<not> (\<forall>h\<in>set (filterGroups keywords). matchesGroup e cv' tv h = Inr True)" for cv' tv
  proof
    assume "\<forall>h\<in>set (filterGroups keywords). matchesGroup e cv' tv h = Inr True"
    with assms(1) have "matchesGroup e cv' tv g = Inr True" by blast
    with m [of cv' tv] show False by simp
  qed
  then have "matchesAllGroups e (cache (initConverters p)) (filterGroups keywords) ttl \<noteq> Inr True" for ttl
    by (simp add: matchesAllGroups_total [OF ready_initConverters t1 t2])
  then show "filterTitles e keywords p =
              (Inr (), (initConverters p)\<lparr>tbody :=
                          map (\<lambda>r. r\<lparr>display := ''none''\<rparr>) (tbody p)\<rparr>)"
    using nb by (simp add: filterTitles_total [OF t1 t2])
qed

text \<open>The rule \<^verbatim>\<open>A;|;B\<close> on two rows whose titles contain both letters.\<close>

theorem group_without_terms_hides_every_row_witness:
  "filterGroups (ascii ''A;|;B'') = [ascii ''A'', ascii ''|'', ascii ''B'']
   \<and> terms (ascii ''|'') = []
   \<and> matchesGroup demo_env initial_cache [ascii ''a | b''] (ascii ''|'') = Inr False
   \<and> fst (filterTitles demo_env (ascii ''A;|;B'')
            (initial_page [mk_row 0 (ascii ''A B''), mk_row 1 (ascii ''a | b'')])) = Inr ()
   \<and> shown (snd (filterTitles demo_env (ascii ''A;|;B'')
            (initial_page [mk_row 0 (ascii ''A B''), mk_row 1 (ascii ''a | b'')])))
       = [False, False]"
proof -
  have v1: "filterGroups (ascii ''A;|;B'') = [ascii ''A'', ascii ''|'', ascii ''B'']"
    by code_simp
  then have h1: "ascii ''|'' \<in> set (filterGroups (ascii ''A;|;B''))" by simp
  have h2: "terms (ascii ''|'') = []" by code_simp
  have h3: "(\<forall>s. cn2twp demo_env s \<noteq> None) \<and> (\<forall>s. tw2cn demo_env s \<noteq> None)"
    by (simp add: demo_env_def)
  note t = group_without_terms_hides_every_row [OF h1 h2,
      of demo_env initial_cache "[ascii ''a | b'']"
         "initial_page [mk_row 0 (ascii ''A B''), mk_row 1 (ascii ''a | b'')]"]
  from t have a: "matchesGroup demo_env initial_cache [ascii ''a | b''] (ascii ''|'') = Inr False"
    by blast
  from t h3 have run: "filterTitles demo_env (ascii ''A;|;B'')
            (initial_page [mk_row 0 (ascii ''A B''), mk_row 1 (ascii ''a | b'')]) =
       (Inr (), (initConverters
                  (initial_page [mk_row 0 (ascii ''A B''), mk_row 1 (ascii ''a | b'')]))
            \<lparr>tbody := map (\<lambda>r. r\<lparr>display := ''none''\<rparr>)
               (tbody (initial_page [mk_row 0 (ascii ''A B''), mk_row 1 (ascii ''a | b'')]))\<rparr>)"
    by blast
  have b: "fst (filterTitles demo_env (ascii ''A;|;B'')
            (initial_page [mk_row 0 (ascii ''A B''), mk_row 1 (ascii ''a | b'')])) = Inr ()"
    by (simp only: run fst_conv)
  have c: "shown (snd (filterTitles demo_env (ascii ''A;|;B'')
            (initial_page [mk_row 0 (ascii ''A B''), mk_row 1 (ascii ''a | b'')])))
       = [False, False]"
    unfolding run by (simp add: shown_def initial_page_def)
  from v1 h2 a b c show ?thesis by blast
qed

subsection \<open>Regular-expression groups\<close>



subsection \<open>Order of the rows\<close>

text \<open>
  Claim C7. Whenever a pass returns, the table holds the same rows in the same order as
  before it: the same identities and the same titles, position by position. With a
  capability that never throws every pass returns.
\<close>

theorem pass_keeps_row_order:
  "(fst (filterTitles e keywords p) = Inr () \<longrightarrow>
       map rid (tbody (snd (filterTitles e keywords p))) = map rid (tbody p)
     \<and> map title (tbody (snd (filterTitles e keywords p))) = map title (tbody p))
   \<and> ((\<forall>s. cn2twp e s \<noteq> None) \<and> (\<forall>s. tw2cn e s \<noteq> None) \<longrightarrow>
        fst (filterTitles e keywords p) = Inr ())"
proof (rule conjI; rule impI)
  assume ok: "fst (filterTitles e keywords p) = Inr ()"
  show "map rid (tbody (snd (filterTitles e keywords p))) = map rid (tbody p)
     \<and> map title (tbody (snd (filterTitles e keywords p))) = map title (tbody p)"
  proof (cases "keywords = [] \<or> trim keywords = []")
    case True
    then show ?thesis by (simp add: filterTitles_def comp_def)
  next
    case False
    let ?run = "processRows e (cache (initConverters p)) (filterGroups keywords) [] (tbody p)"
    from ok False obtain out where out: "?run = Inr out"
      by (cases ?run) (simp_all add: filterTitles_def Let_def tbody_initConverters)
    from processRows_shape [OF out] obtain ds where ds: "length ds = length (tbody p)"
      "out = map (\<lambda>(r, d). r\<lparr>display := d\<rparr>) (zip (tbody p) ds)" by auto
    have "tbody (snd (filterTitles e keywords p)) = out"
      using False out by (simp add: filterTitles_def Let_def tbody_initConverters)
    with ds map_rid_zip [OF ds(1)] show ?thesis by simp
  qed
next
  assume "(\<forall>s. cn2twp e s \<noteq> None) \<and> (\<forall>s. tw2cn e s \<noteq> None)"
  then have t1: "\<forall>s. cn2twp e s \<noteq> None" and t2: "\<forall>s. tw2cn e s \<noteq> None" by simp_all
  show "fst (filterTitles e keywords p) = Inr ()"
    by (simp add: filterTitles_total [OF t1 t2])
qed

text \<open>The rule \<^verbatim>\<open>x265\<close> hides the first and the last of the four rows and moves none.\<close>

theorem pass_keeps_row_order_witness:
  "fst (filterTitles demo_env (ascii ''x265'') demo_page) = Inr ()
   \<and> map rid (tbody (snd (filterTitles demo_env (ascii ''x265'') demo_page))) = [0, 1, 2, 3]
   \<and> shown (snd (filterTitles demo_env (ascii ''x265'') demo_page))
       = [False, True, True, False]"
proof -
  have h: "(\<forall>s. cn2twp demo_env s \<noteq> None) \<and> (\<forall>s. tw2cn demo_env s \<noteq> None)"
    by (simp add: demo_env_def)
  have v: "map rid (tbody demo_page) = [0, 1, 2, 3]"
    by (simp add: demo_page_def initial_page_def mk_row_def)
  have s: "shown (snd (filterTitles demo_env (ascii ''x265'') demo_page))
             = [False, True, True, False]"
    by code_simp
  note t = pass_keeps_row_order [of demo_env "ascii ''x265''" demo_page]
  from t h have a: "fst (filterTitles demo_env (ascii ''x265'') demo_page) = Inr ()"
    by blast
  with t have "map rid (tbody (snd (filterTitles demo_env (ascii ''x265'') demo_page)))
                 = map rid (tbody demo_page)"
    by blast
  with v have b: "map rid (tbody (snd (filterTitles demo_env (ascii ''x265'') demo_page)))
                    = [0, 1, 2, 3]"
    by simp
  from a b s show ?thesis by blast
qed

subsection \<open>Repeating a pass\<close>

text \<open>
  Claim C8. With a capability that never throws, running the same rule again on the
  page the first pass left gives the same result and the same page. The decisions do
  not depend on what the state held before either: any cache, any count of
  constructions and any former display values lead to the same rows being shown.
\<close>

theorem pass_is_idempotent:
  assumes "\<forall>s. cn2twp e s \<noteq> None" and "\<forall>s. tw2cn e s \<noteq> None"
  shows "filterTitles e keywords (snd (filterTitles e keywords p)) = filterTitles e keywords p
       \<and> shown (snd (filterTitles e keywords
                  (p\<lparr>cache := cv, constructed := n,
                     tbody := map (\<lambda>r. r\<lparr>display := d r\<rparr>) (tbody p)\<rparr>)))
           = shown (snd (filterTitles e keywords p))"
proof -
  let ?M = "\<lambda>q ttl. matchesAllGroups e (cache (initConverters q)) (filterGroups keywords) ttl = Inr True"
  have run: "filterTitles e keywords q =
      (Inr (), (if keywords = [] \<or> trim keywords = [] then q else initConverters q)
         \<lparr>tbody := map (\<lambda>r. r\<lparr>display := (if ?M q (title r) then '''' else ''none'')\<rparr>) (tbody q)\<rparr>)"
    for q
    by (rule filterTitles_total [OF assms])
  have same: "?M q ttl = ?M q' ttl" for q q' ttl
    using matchesAllGroups_cache [OF ready_initConverters ready_initConverters, of e q _ _ q']
    by simp
  let ?p1 = "snd (filterTitles e keywords p)"
  have p1: "?p1 = (if keywords = [] \<or> trim keywords = [] then p else initConverters p)
         \<lparr>tbody := map (\<lambda>r. r\<lparr>display := (if ?M p (title r) then '''' else ''none'')\<rparr>) (tbody p)\<rparr>"
    by (simp add: run [of p])
  have a: "filterTitles e keywords ?p1 = filterTitles e keywords p"
  proof (cases "keywords = [] \<or> trim keywords = []")
    case True
    then show ?thesis by (simp add: filterTitles_def comp_def)
  next
    case False
    have r: "ready (cache ?p1)" using False by (simp add: p1 ready_initConverters)
    have i: "initConverters ?p1 = ?p1" by (rule initConverters_ready_id [OF r])
    have ce: "cache ?p1 = cache (initConverters p)"
      using False by (simp add: cache_filterTitles)
    have "filterTitles e keywords ?p1 =
           (Inr (), ?p1\<lparr>tbody := map (\<lambda>r. r\<lparr>display := (if ?M p (title r) then '''' else ''none'')\<rparr>)
                                   (tbody ?p1)\<rparr>)"
      unfolding run [of ?p1] i ce using False by simp
    also have "\<dots> = (Inr (), ?p1)"
      by (simp add: p1 comp_def)
    also have "\<dots> = filterTitles e keywords p"
      by (simp add: run [of p])
    finally show ?thesis .
  qed
  let ?p' = "p\<lparr>cache := cv, constructed := n, tbody := map (\<lambda>r. r\<lparr>display := d r\<rparr>) (tbody p)\<rparr>"
  have b: "shown (snd (filterTitles e keywords ?p')) = shown (snd (filterTitles e keywords p))"
    unfolding run [of ?p'] run [of p] same [of ?p' _ p]
    by (simp add: shown_def comp_def)
  from a b show ?thesis by blast
qed

text \<open>The rule \<^verbatim>\<open>x265\<close> twice on the four rows.\<close>

theorem pass_is_idempotent_witness:
  "filterTitles demo_env (ascii ''x265'') (snd (filterTitles demo_env (ascii ''x265'') demo_page))
     = filterTitles demo_env (ascii ''x265'') demo_page
   \<and> shown (snd (filterTitles demo_env (ascii ''x265'')
              (snd (filterTitles demo_env (ascii ''x265'') demo_page))))
       = [False, True, True, False]"
proof -
  have h1: "\<forall>s. cn2twp demo_env s \<noteq> None" and h2: "\<forall>s. tw2cn demo_env s \<noteq> None"
    by (simp_all add: demo_env_def)
  have s: "shown (snd (filterTitles demo_env (ascii ''x265'') demo_page))
             = [False, True, True, False]"
    by code_simp
  note t = pass_is_idempotent [OF h1 h2, of "ascii ''x265''" demo_page]
  from t have a: "filterTitles demo_env (ascii ''x265'')
                    (snd (filterTitles demo_env (ascii ''x265'') demo_page))
                  = filterTitles demo_env (ascii ''x265'') demo_page"
    by blast
  with s show ?thesis by simp
qed

subsection \<open>The converter cache\<close>

text \<open>
  Claim C9. On a fresh page the first call of \<open>initConverters\<close> builds both converters,
  the first two instances. A second call changes nothing. After a call, no sequence
  of passes, whatever their rules and whether or not they throw, changes the cache or
  builds a converter. From a fresh page, any sequence of passes ends with an empty cache
  and no converter built, or with those first two instances and two converters built:
  the cache is written at most once.
\<close>

theorem converters_initialised_once:
  "initConverters (initial_page rows) =
     \<lparr>cache = \<lparr>toTraditional = Some 0, toSimplified = Some 1\<rparr>, constructed = 2, tbody = rows\<rparr>
   \<and> initConverters (initConverters p) = initConverters p
   \<and> cache (passes e kws (initConverters p)) = cache (initConverters p)
   \<and> constructed (passes e kws (initConverters p)) = constructed (initConverters p)
   \<and> ((constructed (passes e kws (initial_page rows)) = 0
          \<and> cache (passes e kws (initial_page rows)) = initial_cache)
        \<or> (constructed (passes e kws (initial_page rows)) = 2
          \<and> cache (passes e kws (initial_page rows))
                = \<lparr>toTraditional = Some 0, toSimplified = Some 1\<rparr>))"
proof -
  have a: "initConverters (initial_page rows) =
     \<lparr>cache = \<lparr>toTraditional = Some 0, toSimplified = Some 1\<rparr>, constructed = 2, tbody = rows\<rparr>"
    by (simp add: initConverters_def initial_page_def initial_cache_def)
  have b: "initConverters (initConverters p) = initConverters p"
    by (rule initConverters_ready_id [OF ready_initConverters])
  have c: "cache (passes e kws (initConverters p)) = cache (initConverters p)
     \<and> constructed (passes e kws (initConverters p)) = constructed (initConverters p)"
    by (rule passes_keep_ready [OF ready_initConverters])
  have d: "(constructed (passes e kws (initial_page rows)) = 0
          \<and> cache (passes e kws (initial_page rows)) = initial_cache)
        \<or> (constructed (passes e kws (initial_page rows)) = 2
          \<and> cache (passes e kws (initial_page rows))
                = \<lparr>toTraditional = Some 0, toSimplified = Some 1\<rparr>)"
    by (rule passes_from_initial) (simp_all add: initial_page_def)
  from a b c d show ?thesis by blast
qed

text \<open>
  Three edits on the four rows, the first one blank: the blank one leaves the cache
  empty, and after all three the cache holds the two instances the second one built.
\<close>

theorem converters_initialised_once_witness:
  "cache (passes demo_env [ascii '' ''] demo_page) = initial_cache
   \<and> constructed (passes demo_env [ascii '' '', ascii ''hevc'', ascii ''x265''] demo_page) = 2
   \<and> cache (passes demo_env [ascii '' '', ascii ''hevc'', ascii ''x265''] demo_page)
       = \<lparr>toTraditional = Some 0, toSimplified = Some 1\<rparr>"
proof -
  have v1: "cache (passes demo_env [ascii '' ''] demo_page) = initial_cache"
    by code_simp
  have v2: "constructed (passes demo_env [ascii '' '', ascii ''hevc'', ascii ''x265''] demo_page)
              \<noteq> 0"
    by code_simp
  note t = converters_initialised_once [of "tbody demo_page" demo_page demo_env
      "[ascii '' '', ascii ''hevc'', ascii ''x265'']"]
  have p: "initial_page (tbody demo_page) = demo_page"
    by (simp add: demo_page_def initial_page_def)
  from t v2 have "constructed (passes demo_env [ascii '' '', ascii ''hevc'', ascii ''x265'']
                     demo_page) = 2
       \<and> cache (passes demo_env [ascii '' '', ascii ''hevc'', ascii ''x265''] demo_page)
           = \<lparr>toTraditional = Some 0, toSimplified = Some 1\<rparr>"
    unfolding p by blast
  with v1 show ?thesis by blast
qed

subsection \<open>A capability that throws\<close>

text \<open>
  Claim C10. Under a rule that is not blank, when the capability throws on the title of
  some row, the pass does not return: the exception leaves \<open>filterTitles\<close>, and the
  table is left without any row, also without those processed before the failure.
\<close>

theorem conversion_failure_leaves_table_empty:
  assumes "\<not> (keywords = [] \<or> trim keywords = [])"
    and "r \<in> set (tbody p)"
    and "cn2twp e (title r) = None \<or> tw2cn e (title r) = None"
  shows "fst (filterTitles e keywords p) = Inl ConversionFailure
       \<and> tbody (snd (filterTitles e keywords p)) = []"
proof -
  let ?cv = "cache (initConverters p)"
  let ?run = "processRows e ?cv (filterGroups keywords) [] (tbody p)"
  from variants_fails [OF assms(3)] obtain err where "variants e ?cv (title r) = Inl err"
    by blast
  then have "\<exists>err. matchesAllGroups e ?cv (filterGroups keywords) (title r) = Inl err"
    by (simp add: matchesAllGroups_def)
  from processRows_fails [OF assms(2) this] obtain err' where f: "?run = Inl err'"
    by blast
  from processRows_error [OF ready_initConverters f] have "err' = ConversionFailure" .
  with f assms(1) show ?thesis
    by (simp add: filterTitles_def Let_def tbody_initConverters)
qed

text \<open>
  A traditional-direction converter that throws on titles holding U+7C21, and works on
  every other string: the first two rows are processed, the third throws, and the table
  is empty afterwards.
\<close>

theorem conversion_failure_leaves_table_empty_witness:
  "cn2twp failing_env (title (mk_row 0 ([0x7B80, 0x4F53] @ ascii '' HEVC 01''))) \<noteq> None
   \<and> cn2twp failing_env (title (mk_row 2 ([0x7C21, 0x9AD4] @ ascii '' X265 03''))) = None
   \<and> fst (filterTitles failing_env (ascii ''hevc'') demo_page) = Inl ConversionFailure
   \<and> tbody (snd (filterTitles failing_env (ascii ''hevc'') demo_page)) = []"
proof -
  have h1: "\<not> (ascii ''hevc'' = [] \<or> trim (ascii ''hevc'') = [])" by code_simp
  have h2: "mk_row 2 ([0x7C21, 0x9AD4] @ ascii '' X265 03'') \<in> set (tbody demo_page)"
    by (simp add: demo_page_def initial_page_def)
  have v0: "cn2twp failing_env (title (mk_row 0 ([0x7B80, 0x4F53] @ ascii '' HEVC 01''))) \<noteq> None"
    by (simp add: failing_env_def demo_env_def mk_row_def ascii_def)
  have v2: "cn2twp failing_env (title (mk_row 2 ([0x7C21, 0x9AD4] @ ascii '' X265 03''))) = None"
    by (simp add: failing_env_def demo_env_def mk_row_def)
  then have h3: "cn2twp failing_env (title (mk_row 2 ([0x7C21, 0x9AD4] @ ascii '' X265 03''))) = None
      \<or> tw2cn failing_env (title (mk_row 2 ([0x7C21, 0x9AD4] @ ascii '' X265 03''))) = None"
    by blast
  from conversion_failure_leaves_table_empty [OF h1 h2 h3] v0 v2 show ?thesis by blast
qed
end
